theory Spec2Isabelle
  imports Main
begin

section \<open>Strings and characters\<close>

text \<open>
  The application is a single Python module, \<^verbatim>\<open>app.py\<close>: a URL shortener on Flask and
  SQLite. A Python \<^verbatim>\<open>str\<close> is a sequence of code points. It is modelled as a
  \<^typ>\<open>string\<close> whose characters are read as the code points 0 to 255 (the ASCII and
  Latin-1 blocks of Unicode), so every statement below is about strings over that range.
  The character classes of the Python runtime (\<^verbatim>\<open>str.isspace\<close>, \<^verbatim>\<open>str.isalpha\<close>,
  \<^verbatim>\<open>str.isalnum\<close>, \<^verbatim>\<open>str.lower\<close>) are written out for that range as CPython 3.11
  computes them.
\<close>

definition cp :: "char \<Rightarrow> nat" where
  "cp c = of_char c"

definition isascii :: "char \<Rightarrow> bool" where
  "isascii c = (cp c < 128)"

definition isspace :: "char \<Rightarrow> bool" where
  \<comment> \<open>\<^verbatim>\<open>str.isspace\<close>: tab to CR, FS to US, space, NEL and no-break space.\<close>
  "isspace c = ((9 \<le> cp c \<and> cp c \<le> 13) \<or> (28 \<le> cp c \<and> cp c \<le> 32)
                \<or> cp c = 133 \<or> cp c = 160)"

definition isalpha :: "char \<Rightarrow> bool" where
  \<comment> \<open>\<^verbatim>\<open>str.isalpha\<close>: A-Z, a-z, and the Latin-1 letters.\<close>
  "isalpha c = ((65 \<le> cp c \<and> cp c \<le> 90) \<or> (97 \<le> cp c \<and> cp c \<le> 122)
                \<or> cp c = 170 \<or> cp c = 181 \<or> cp c = 186
                \<or> (192 \<le> cp c \<and> cp c \<le> 214) \<or> (216 \<le> cp c \<and> cp c \<le> 246)
                \<or> 248 \<le> cp c)"

definition isalnum :: "char \<Rightarrow> bool" where
  \<comment> \<open>\<^verbatim>\<open>str.isalnum\<close>: alphabetic, or a decimal digit, or one of the Latin-1 numeric
      characters (superscript 1, 2, 3 and the fractions one quarter, one half, three quarters).\<close>
  "isalnum c = (isalpha c \<or> (48 \<le> cp c \<and> cp c \<le> 57)
                \<or> cp c = 178 \<or> cp c = 179 \<or> cp c = 185
                \<or> (188 \<le> cp c \<and> cp c \<le> 190))"

definition lower_char :: "char \<Rightarrow> char" where
  "lower_char c = (if (65 \<le> cp c \<and> cp c \<le> 90) \<or> (192 \<le> cp c \<and> cp c \<le> 214)
                      \<or> (216 \<le> cp c \<and> cp c \<le> 222)
                   then char_of (cp c + 32) else c)"

definition lower :: "string \<Rightarrow> string" where
  "lower s = map lower_char s"

definition strip :: "string \<Rightarrow> string" where
  \<comment> \<open>\<^verbatim>\<open>str.strip()\<close> with no argument removes leading and trailing whitespace.\<close>
  "strip s = rev (dropWhile isspace (rev (dropWhile isspace s)))"

definition rstrip_char :: "char \<Rightarrow> string \<Rightarrow> string" where
  \<comment> \<open>\<^verbatim>\<open>s.rstrip(c)\<close> for a one-character argument.\<close>
  "rstrip_char c s = rev (dropWhile (\<lambda>d. d = c) (rev s))"

fun split_on :: "char \<Rightarrow> string \<Rightarrow> string list" where
  \<comment> \<open>\<^verbatim>\<open>s.split(sep)\<close> for a one-character separator: never the empty list.\<close>
  "split_on d [] = [[]]"
| "split_on d (c # cs) =
     (if c = d then [] # split_on d cs
      else (c # hd (split_on d cs)) # tl (split_on d cs))"

definition partition_on :: "char \<Rightarrow> string \<Rightarrow> string \<times> bool \<times> string" where
  \<comment> \<open>\<^verbatim>\<open>s.partition(sep)\<close>: the text before the first separator, whether the
      separator was found, and the text after it.\<close>
  "partition_on d s =
     (let before = takeWhile (\<lambda>c. c \<noteq> d) s; rest = dropWhile (\<lambda>c. c \<noteq> d) s
      in (before, rest \<noteq> [], tl rest))"

definition rpartition_after :: "char \<Rightarrow> string \<Rightarrow> string" where
  \<comment> \<open>the third component of \<^verbatim>\<open>s.rpartition(sep)\<close>: the text after the last separator,
      the whole string when there is none.\<close>
  "rpartition_after d s = rev (takeWhile (\<lambda>c. c \<noteq> d) (rev s))"

definition find_char :: "char \<Rightarrow> string \<Rightarrow> nat option" where
  \<comment> \<open>\<^verbatim>\<open>s.find(c)\<close>: the index of the first occurrence, \<open>None\<close> for Python's -1.\<close>
  "find_char d s = (if d \<in> set s then Some (length (takeWhile (\<lambda>c. c \<noteq> d) s)) else None)"

section \<open>The library's address and URL parsers\<close>

text \<open>
  \<^verbatim>\<open>validate_and_normalize_url\<close> calls \<^verbatim>\<open>urllib.parse.urlparse\<close> of the Python standard
  library and reads the fields \<^verbatim>\<open>scheme\<close> and \<^verbatim>\<open>netloc\<close> of its result. The parser is
  modelled after CPython 3.11 (\<^verbatim>\<open>urllib/parse.py\<close> and, for a bracketed host,
  \<^verbatim>\<open>ipaddress.py\<close>), for those two fields and for the \<^verbatim>\<open>ValueError\<close> it can raise.
\<close>

datatype error = ValueError | OperationalError | IntegrityError

definition decimal_value :: "string \<Rightarrow> nat" where
  "decimal_value s = foldl (\<lambda>a c. 10 * a + (cp c - 48)) 0 s"

definition parse_octet :: "string \<Rightarrow> nat option" where
  \<comment> \<open>\<^verbatim>\<open>_BaseV4._parse_octet\<close>\<close>
  "parse_octet octet_str =
     (if octet_str = [] then None
      else if \<not> (\<forall>c \<in> set octet_str. c \<in> set ''0123456789'') then None
      else if length octet_str > 3 then None
      else if octet_str \<noteq> ''0'' \<and> hd octet_str = CHR ''0'' then None
      else if decimal_value octet_str > 255 then None
      else Some (decimal_value octet_str))"

definition IPv4Address :: "string \<Rightarrow> nat option" where
  \<comment> \<open>the constructor on a string: \<open>None\<close> is \<^verbatim>\<open>AddressValueError\<close>.\<close>
  "IPv4Address addr_str =
     (if CHR ''/'' \<in> set addr_str then None
      else if addr_str = [] then None
      else let octets = split_on CHR ''.'' addr_str in
        if length octets \<noteq> 4 then None
        else if \<exists>octet \<in> set octets. parse_octet octet = None then None
        else Some (foldl (\<lambda>a octet. 256 * a + the (parse_octet octet)) 0 octets))"

definition hex_char :: "nat \<Rightarrow> char" where
  "hex_char n = ''0123456789abcdef'' ! n"

fun format_hex :: "nat \<Rightarrow> string" where
  \<comment> \<open>\<^verbatim>\<open>'%x' % n\<close>\<close>
  "format_hex n = (if n < 16 then [hex_char n] else format_hex (n div 16) @ [hex_char (n mod 16)])"

definition parse_hextet_ok :: "string \<Rightarrow> bool" where
  \<comment> \<open>\<^verbatim>\<open>_BaseV6._parse_hextet\<close> returns (the empty string passes the two checks and then
      fails in \<^verbatim>\<open>int(hextet_str, 16)\<close>).\<close>
  "parse_hextet_ok hextet_str =
     ((\<forall>c \<in> set hextet_str. c \<in> set ''0123456789ABCDEFabcdef'')
      \<and> \<not> length hextet_str > 4 \<and> hextet_str \<noteq> [])"

definition ip6_parts :: "string \<Rightarrow> string list option" where
  \<comment> \<open>the first half of \<^verbatim>\<open>_BaseV6._ip_int_from_string\<close>: the colon-separated parts, with
      an IPv4-style suffix converted to two hextets.\<close>
  "ip6_parts ip_str =
     (if ip_str = [] then None
      else let parts = split_on CHR '':'' ip_str in
        if length parts < 3 then None
        else if CHR ''.'' \<in> set (last parts) then
          (case IPv4Address (last parts) of
             None \<Rightarrow> None
           | Some ipv4_int \<Rightarrow>
               Some (butlast parts @ [format_hex ((ipv4_int div 65536) mod 65536),
                                      format_hex (ipv4_int mod 65536)]))
        else Some parts)"

definition ip6_parts_ok :: "string list \<Rightarrow> bool" where
  \<comment> \<open>the second half of \<^verbatim>\<open>_BaseV6._ip_int_from_string\<close>: whether it returns an
      address for these parts.\<close>
  "ip6_parts_ok parts =
     (if length parts > 9 then False
      else let n = length parts; skips = filter (\<lambda>i. parts ! i = []) [1 ..< n - 1] in
        if length skips > 1 then False
        else if skips \<noteq> [] then
          (let skip_index = hd skips;
               parts_hi = (if parts ! 0 = [] then skip_index - 1 else skip_index);
               parts_lo = (if last parts = [] then n - skip_index - 1 - 1 else n - skip_index - 1)
           in if parts ! 0 = [] \<and> parts_hi \<noteq> 0 then False
              else if last parts = [] \<and> parts_lo \<noteq> 0 then False
              else if 8 < parts_hi + parts_lo + 1 then False
              else (\<forall>p \<in> set (take parts_hi parts). parse_hextet_ok p)
                 \<and> (\<forall>p \<in> set (drop (n - parts_lo) parts). parse_hextet_ok p))
        else if n \<noteq> 8 then False
        else if parts ! 0 = [] then False
        else if last parts = [] then False
        else (\<forall>p \<in> set parts. parse_hextet_ok p))"

definition IPv6Address_ok :: "string \<Rightarrow> bool" where
  \<comment> \<open>whether the constructor on a string returns: the scope id after \<^verbatim>\<open>%\<close>, when there
      is one, must not be empty and must hold no second \<^verbatim>\<open>%\<close>.\<close>
  "IPv6Address_ok addr_str =
     (if CHR ''/'' \<in> set addr_str then False
      else case partition_on CHR ''%'' addr_str of
        (addr, sep, scope_id) \<Rightarrow>
          if sep \<and> (scope_id = [] \<or> CHR ''%'' \<in> set scope_id) then False
          else (case ip6_parts addr of None \<Rightarrow> False | Some parts \<Rightarrow> ip6_parts_ok parts))"

definition ipvfuture_match :: "string \<Rightarrow> bool" where
  \<comment> \<open>\<^verbatim>\<open>re.match(r"\Av[a-fA-F0-9]+\..+\Z", hostname)\<close> on a string with no line feed.\<close>
  "ipvfuture_match hostname =
     (case hostname of
        [] \<Rightarrow> False
      | c # cs \<Rightarrow>
          c = CHR ''v''
          \<and> (let digits = takeWhile (\<lambda>x. x \<in> set ''abcdefABCDEF0123456789'') cs;
                  rest = dropWhile (\<lambda>x. x \<in> set ''abcdefABCDEF0123456789'') cs
              in digits \<noteq> [] \<and> rest \<noteq> [] \<and> hd rest = CHR ''.'' \<and> tl rest \<noteq> []))"

definition check_bracketed_host :: "string \<Rightarrow> bool" where
  \<comment> \<open>\<^verbatim>\<open>_check_bracketed_host\<close> returns without raising. \<^verbatim>\<open>ipaddress.ip_address\<close> tries an
      IPv4 address first, and an IPv4 address in brackets is refused.\<close>
  "check_bracketed_host hostname =
     (if hostname \<noteq> [] \<and> hd hostname = CHR ''v'' then ipvfuture_match hostname
      else if IPv4Address hostname \<noteq> None then False
      else IPv6Address_ok hostname)"

record parse_result =
  scheme :: string
  netloc :: string

definition scheme_chars :: string where
  "scheme_chars =
     ''abcdefghijklmnopqrstuvwxyz'' @ ''ABCDEFGHIJKLMNOPQRSTUVWXYZ'' @ ''0123456789'' @ ''+-.''"

definition splitnetloc :: "string \<Rightarrow> nat \<Rightarrow> string \<times> string" where
  \<comment> \<open>\<^verbatim>\<open>_splitnetloc\<close>: the text from \<open>start\<close> up to the earliest of the delimiters
      \<^verbatim>\<open>/\<close>, \<^verbatim>\<open>?\<close> and \<^verbatim>\<open>#\<close>, and the rest.\<close>
  "splitnetloc url start =
     (let domain = takeWhile (\<lambda>c. c \<notin> set ''/?#'') (drop start url)
      in (domain, drop (start + length domain) url))"

definition urlparse :: "string \<Rightarrow> error + parse_result" where
  \<comment> \<open>\<^verbatim>\<open>urlparse(url)\<close>, that is \<^verbatim>\<open>urlsplit\<close> with the default scheme \<^verbatim>\<open>''\<close>: leading C0
      control characters and spaces are dropped, then tab, CR and LF anywhere; the text
      before the first colon is the scheme when it starts with an ASCII letter and holds
      scheme characters only; the network location follows \<^verbatim>\<open>//\<close>. \<^verbatim>\<open>_checknetloc\<close>
      raises only when the NFKC form of a non-ASCII network location holds one of
      \<^verbatim>\<open>/?#@:\<close>; no code point below 256 decomposes to one of them, so it never raises
      here.\<close>
  "urlparse url0 =
     (let url1 = dropWhile (\<lambda>c. cp c \<le> 32) url0;
          url2 = filter (\<lambda>c. c \<notin> {CHR 0x09, CHR 0x0D, CHR 0x0A}) url1;
          (sch, url3) =
            (case find_char CHR '':'' url2 of
               None \<Rightarrow> ([], url2)
             | Some i \<Rightarrow>
                 if i > 0 \<and> isascii (hd url2) \<and> isalpha (hd url2)
                    \<and> (\<forall>c \<in> set (take i url2). c \<in> set scheme_chars)
                 then (lower (take i url2), drop (i + 1) url2)
                 else ([], url2))
      in if take 2 url3 = ''//'' then
           (let nl = fst (splitnetloc url3 2) in
              if (CHR ''['' \<in> set nl \<and> CHR '']'' \<notin> set nl)
                 \<or> (CHR '']'' \<in> set nl \<and> CHR ''['' \<notin> set nl)
              then Inl ValueError
              else if CHR ''['' \<in> set nl \<and> CHR '']'' \<in> set nl
                      \<and> \<not> check_bracketed_host
                            (fst (partition_on CHR '']'' (snd (snd (partition_on CHR ''['' nl)))))
              then Inl ValueError
              else Inr \<lparr>scheme = sch, netloc = nl\<rparr>)
         else Inr \<lparr>scheme = sch, netloc = []\<rparr>)"

definition hostname :: "parse_result \<Rightarrow> string option" where
  \<comment> \<open>the \<^verbatim>\<open>hostname\<close> property of a parse result: the host inside the network location,
      after the user information and before the port; \<open>None\<close> when it is empty. The
      application never reads it.\<close>
  "hostname r =
     (let hostinfo = rpartition_after CHR ''@'' (netloc r);
          (before, have_open_br, bracketed) = partition_on CHR ''['' hostinfo;
          h = (if have_open_br then fst (partition_on CHR '']'' bracketed)
               else fst (partition_on CHR '':'' hostinfo))
      in if h = [] then None
         else (case partition_on CHR ''%'' h of
                 (name, percent, zone) \<Rightarrow>
                   Some (lower name @ (if percent then ''%'' else []) @ zone)))"

section \<open>Utility functions of the application\<close>

definition SHORT_CODE_LENGTH :: nat where
  "SHORT_CODE_LENGTH = 6"

definition ALPHABET :: string where
  \<comment> \<open>\<^verbatim>\<open>string.ascii_letters + string.digits\<close>\<close>
  "ALPHABET =
     ''abcdefghijklmnopqrstuvwxyz'' @ ''ABCDEFGHIJKLMNOPQRSTUVWXYZ'' @ ''0123456789''"

definition validate_and_normalize_url :: "string option \<Rightarrow> error + string option" where
  \<comment> \<open>The argument is \<^verbatim>\<open>payload.get('url')\<close>, \<open>None\<close> when the key is absent. The result
      \<open>Inr None\<close> is Python's \<^verbatim>\<open>None\<close>; \<open>Inl\<close> is an exception of the parser.\<close>
  "validate_and_normalize_url original =
     (case original of
        None \<Rightarrow> Inr None
      | Some url0 \<Rightarrow>
          if url0 = [] then Inr None
          else
            let url1 = strip url0 in
            case urlparse url1 of
              Inl e \<Rightarrow> Inl e
            | Inr parsed1 \<Rightarrow>
                (case (if scheme parsed1 = []
                       then (case urlparse (''http://'' @ url1) of
                               Inl e \<Rightarrow> Inl e
                             | Inr parsed2 \<Rightarrow> Inr (''http://'' @ url1, parsed2))
                       else Inr (url1, parsed1)) of
                   Inl e \<Rightarrow> Inl e
                 | Inr (url, parsed) \<Rightarrow>
                     if scheme parsed \<notin> {''http'', ''https''} then Inr None
                     else if netloc parsed = [] then Inr None
                     else Inr (Some url)))"

section \<open>The database\<close>

text \<open>
  The table \<^verbatim>\<open>urls\<close> has the primary key \<^verbatim>\<open>code\<close> and the columns \<^verbatim>\<open>url\<close>,
  \<^verbatim>\<open>created_at\<close> and \<^verbatim>\<open>clicks\<close>: a map from codes to rows. The counter is an integer;
  SQLite's 64-bit range is not modelled. \<^verbatim>\<open>init_db\<close> creates the table when it is
  missing, so the first state of a new database is the empty map.

  Every call into \<^verbatim>\<open>sqlite3\<close> can raise. Which kinds of call fail during a request is a
  parameter of each handler; no handler catches the exception. The connection is closed
  when the request ends, so a change that was not committed is lost: the state after an
  exception is the state before the request.
\<close>

record url_record =
  url :: string
  created_at :: nat
  clicks :: int

type_synonym store = "string \<rightharpoonup> url_record"

datatype db_op = Connect | Select | Insert | Update | Commit

type_synonym faults = "db_op \<Rightarrow> bool"


definition choice :: "'a list \<Rightarrow> nat \<Rightarrow> 'a" where
  \<comment> \<open>\<^verbatim>\<open>secrets.choice(seq)\<close> on a non-empty sequence, for the random number \<open>r\<close> drawn
      from the system's source: \<^verbatim>\<open>seq[randbelow(len(seq))]\<close>.\<close>
  "choice seq r = seq ! (r mod length seq)"

definition draw :: "(nat \<Rightarrow> nat) \<Rightarrow> nat \<Rightarrow> nat \<Rightarrow> string" where
  \<comment> \<open>\<^verbatim>\<open>''.join(secrets.choice(ALPHABET) for _ in range(length))\<close>, reading the random
      numbers \<open>rng pos\<close>, \<open>rng (pos + 1)\<close>, ...\<close>
  "draw rng pos len = map (\<lambda>k. choice ALPHABET (rng (pos + k))) [0 ..< len]"

partial_function (option) generate_code ::
  "faults \<Rightarrow> store \<Rightarrow> (nat \<Rightarrow> nat) \<Rightarrow> nat \<Rightarrow> nat \<Rightarrow> ((error + string) \<times> nat) option" where
  \<comment> \<open>The \<^verbatim>\<open>while True\<close> loop. The result \<open>None\<close> is a loop that never ends; otherwise
      the code (or the exception) and the number of random numbers consumed so far.\<close>
  "generate_code fl db rng pos len =
     (if fl Connect \<or> fl Select then Some (Inl OperationalError, pos + len)
      else if db (draw rng pos len) = None then Some (Inr (draw rng pos len), pos + len)
      else generate_code fl db rng (pos + len) len)"

definition generate_code_post ::
  "faults \<Rightarrow> store \<Rightarrow> (nat \<Rightarrow> nat) \<Rightarrow> nat \<Rightarrow> nat \<Rightarrow> (error + string) \<times> nat \<Rightarrow> bool" where
  \<comment> \<open>what a call of \<^verbatim>\<open>generate_code\<close> that returns has done: it raised on a failing
      database call, or it returns the first draw that is not a key of the table.\<close>
  "generate_code_post fl db rng pos len y =
     (case y of
        (Inl e, pos') \<Rightarrow> (fl Connect \<or> fl Select) \<and> e = OperationalError
      | (Inr code, pos') \<Rightarrow>
          \<not> fl Connect \<and> \<not> fl Select \<and> db code = None
          \<and> (\<exists>k. code = draw rng (pos + k * len) len \<and> pos' = pos + (k + 1) * len
                 \<and> (\<forall>j < k. db (draw rng (pos + j * len) len) \<noteq> None)))"

section \<open>Routes\<close>

datatype json = JStr string | JInt int | JTime nat

datatype response =
    Text string nat
  | Json "(string \<times> json) list" nat
  | Redirect string nat

record request =
  req_url :: "string option"
  custom :: "string option"
  host_url :: string
  now :: nat

text \<open>
  A request to \<^verbatim>\<open>/shorten\<close> is the two payload entries \<^verbatim>\<open>url\<close> and \<^verbatim>\<open>custom\<close> (a string, or
  absent), \<^verbatim>\<open>request.host_url\<close> and the clock reading \<^verbatim>\<open>datetime.utcnow()\<close>. A handler
  returns what it sends (an exception is \<open>Inl\<close>, answered with status 500) and the state
  of the table afterwards. \<^verbatim>\<open>redirect(location)\<close> of Flask is the response
  \<open>Redirect location 302\<close>.
\<close>

definition insert_url :: "faults \<Rightarrow> store \<Rightarrow> request \<Rightarrow> string \<Rightarrow> string \<Rightarrow> (error + response) \<times> store" where
  \<comment> \<open>the last four statements of \<^verbatim>\<open>shorten\<close>, after the code is chosen: the \<^verbatim>\<open>INSERT\<close>
      (refused for a code that is already a key), the commit and the answer.\<close>
  "insert_url fl db req u code =
     (if fl Insert then (Inl OperationalError, db)
      else if db code \<noteq> None then (Inl IntegrityError, db)
      else if fl Commit then (Inl OperationalError, db)
      else (Inr (Json [(''short_url'', JStr (rstrip_char CHR ''/'' (host_url req) @ ''/'' @ code))] 201),
            db(code \<mapsto> \<lparr>url = u, created_at = now req, clicks = 0\<rparr>)))"

definition custom_chars_ok :: "string \<Rightarrow> bool" where
  \<comment> \<open>the test of \<^verbatim>\<open>shorten\<close> on a custom code:
      \<^verbatim>\<open>all(c.isalnum() or c in ('-','_') for c in custom)\<close>\<close>
  "custom_chars_ok code = (\<forall>c \<in> set code. isalnum c \<or> c \<in> {CHR ''-'', CHR ''_''})"

definition shorten ::
  "faults \<Rightarrow> store \<Rightarrow> (nat \<Rightarrow> nat) \<Rightarrow> nat \<Rightarrow> request \<Rightarrow> ((error + response) \<times> store \<times> nat) option" where
  "shorten fl db rng pos req =
     (case validate_and_normalize_url (req_url req) of
        Inl e \<Rightarrow> Some (Inl e, db, pos)
      | Inr normalized \<Rightarrow>
          if normalized = None \<or> normalized = Some [] then
            Some (Inr (Json [(''error'', JStr ''Invalid URL'')] 400), db, pos)
          else if fl Connect then Some (Inl OperationalError, db, pos)
          else if custom req \<noteq> None \<and> custom req \<noteq> Some [] then
            if \<not> custom_chars_ok (the (custom req)) then
              Some (Inr (Json [(''error'', JStr ''Invalid characters in custom code'')] 400), db, pos)
            else if fl Select then Some (Inl OperationalError, db, pos)
            else if db (the (custom req)) \<noteq> None then
              Some (Inr (Json [(''error'', JStr ''Custom code in use'')] 409), db, pos)
            else
              (case insert_url fl db req (the normalized) (the (custom req)) of
                 (out, db') \<Rightarrow> Some (out, db', pos))
          else
            (case generate_code fl db rng pos SHORT_CODE_LENGTH of
               None \<Rightarrow> None
             | Some (Inl e, pos') \<Rightarrow> Some (Inl e, db, pos')
             | Some (Inr code, pos') \<Rightarrow>
                 (case insert_url fl db req (the normalized) code of
                    (out, db') \<Rightarrow> Some (out, db', pos'))))"

definition redirect_code :: "faults \<Rightarrow> store \<Rightarrow> string \<Rightarrow> (error + response) \<times> store" where
  "redirect_code fl db code =
     (if fl Connect \<or> fl Select then (Inl OperationalError, db)
      else case db code of
        None \<Rightarrow> (Inr (Text ''Not found'' 404), db)
      | Some row \<Rightarrow>
          if fl Update \<or> fl Commit then (Inl OperationalError, db)
          else (Inr (Redirect (url row) 302), db(code \<mapsto> row\<lparr>clicks := clicks row + 1\<rparr>)))"

definition stats :: "faults \<Rightarrow> store \<Rightarrow> string \<Rightarrow> (error + response) \<times> store" where
  "stats fl db code =
     (if fl Connect \<or> fl Select then (Inl OperationalError, db)
      else case db code of
        None \<Rightarrow> (Inr (Json [(''error'', JStr ''Not found'')] 404), db)
      | Some row \<Rightarrow>
          (Inr (Json [(''code'', JStr code), (''url'', JStr (url row)),
                      (''created_at'', JTime (created_at row)), (''clicks'', JInt (clicks row))] 200),
           db))"

section \<open>Histories of the table\<close>

inductive step :: "store \<Rightarrow> store \<Rightarrow> bool" where
  step_shorten: "shorten fl db rng pos req = Some (out, db', pos') \<Longrightarrow> step db db'"
| step_redirect: "redirect_code fl db code = (out, db') \<Longrightarrow> step db db'"
| step_stats: "stats fl db code = (out, db') \<Longrightarrow> step db db'"

definition reachable :: "store \<Rightarrow> bool" where
  \<comment> \<open>the states of a database that started empty, after any number of requests\<close>
  "reachable db = step\<^sup>*\<^sup>* Map.empty db"

definition url_ok :: "string \<Rightarrow> bool" where
  \<comment> \<open>what \<^verbatim>\<open>validate_and_normalize_url\<close> has checked of a string it returned: the
      parser gives it the scheme \<^verbatim>\<open>http\<close> or \<^verbatim>\<open>https\<close> and a network location that is not
      empty.\<close>
  "url_ok u = ((\<exists>p. urlparse u = Inr p \<and> scheme p \<in> {''http'', ''https''} \<and> netloc p \<noteq> [])
               \<and> (\<exists>original. validate_and_normalize_url original = Inr (Some u)))"

section \<open>Normalization\<close>

lemma strip_all_space:
  assumes "\<forall>c \<in> set ws. isspace c"
  shows "strip ws = []"
proof -
  have d: "dropWhile isspace ws = []"
    using assms by (induction ws) auto
  show ?thesis unfolding strip_def d by simp
qed

lemma urlparse_empty: "urlparse [] = Inr \<lparr>scheme = [], netloc = []\<rparr>"
  by code_simp

lemma urlparse_http_only: "urlparse ''http://'' = Inr \<lparr>scheme = ''http'', netloc = []\<rparr>"
  by code_simp

lemma validate_all_space:
  assumes "\<forall>c \<in> set ws. isspace c"
  shows "validate_and_normalize_url (Some ws) = Inr None"
proof (cases "ws = []")
  case True
  then show ?thesis by (simp add: validate_and_normalize_url_def)
next
  case False
  have "strip ws = []" using assms by (rule strip_all_space)
  then show ?thesis
    using False by (simp add: validate_and_normalize_url_def urlparse_empty urlparse_http_only)
qed

text \<open>
  C2. \<^verbatim>\<open>"example.com"\<close> is accepted and becomes \<^verbatim>\<open>"http://example.com"\<close>; the empty string
  and every string made of whitespace only are refused (the result is \<^verbatim>\<open>None\<close>);
  \<^verbatim>\<open>"ftp://x.com"\<close> is refused; \<^verbatim>\<open>"http://"\<close> is refused, and it parses with the scheme
  \<^verbatim>\<open>http\<close> and an empty network location.
\<close>

theorem normalize_boundary:
  "validate_and_normalize_url (Some ''example.com'') = Inr (Some ''http://example.com'')
   \<and> validate_and_normalize_url (Some []) = Inr None
   \<and> (\<forall>ws. (\<forall>c \<in> set ws. isspace c) \<longrightarrow> validate_and_normalize_url (Some ws) = Inr None)
   \<and> validate_and_normalize_url (Some ''ftp://x.com'') = Inr None
   \<and> urlparse ''http://'' = Inr \<lparr>scheme = ''http'', netloc = []\<rparr>
   \<and> validate_and_normalize_url (Some ''http://'') = Inr None"
proof -
  have a: "validate_and_normalize_url (Some ''example.com'') = Inr (Some ''http://example.com'')"
    by code_simp
  have b: "validate_and_normalize_url (Some ''ftp://x.com'') = Inr None"
    by code_simp
  have c: "validate_and_normalize_url (Some ''http://'') = Inr None"
    by code_simp
  show ?thesis
    using a b c validate_all_space urlparse_http_only by simp
qed

theorem normalize_boundary_witness:
  "isspace (CHR 0x20) \<and> isspace (CHR 0x09) \<and> isspace (CHR 0xA0)
   \<and> validate_and_normalize_url (Some [CHR 0x20, CHR 0x09, CHR 0xA0]) = Inr None"
proof -
  have sp: "\<forall>c \<in> set [CHR 0x20, CHR 0x09, CHR 0xA0]. isspace c"
    by (simp add: isspace_def cp_def)
  with normalize_boundary show ?thesis by simp
qed

section \<open>Inputs with a colon and no scheme\<close>



















section \<open>The code generator\<close>

lemma ALPHABET_size: "length ALPHABET = 62" and ALPHABET_distinct: "distinct ALPHABET"
  by (simp_all add: ALPHABET_def)

lemma choice_in: "seq \<noteq> [] \<Longrightarrow> choice seq r \<in> set seq"
  by (simp add: choice_def)

lemma draw_length: "length (draw rng pos len) = len"
  by (simp add: draw_def)

lemma draw_chars: "set (draw rng pos len) \<subseteq> set ALPHABET"
proof -
  have "ALPHABET \<noteq> []" by (simp add: ALPHABET_def)
  then show ?thesis by (auto simp: draw_def choice_in)
qed

lemma generate_code_post_shift:
  assumes "generate_code_post fl db rng (pos + len) len y"
    and "\<not> fl Connect" and "\<not> fl Select" and "db (draw rng pos len) \<noteq> None"
  shows "generate_code_post fl db rng pos len y"
proof (cases y)
  case (Pair a pos')
  show ?thesis
  proof (cases a)
    case (Inl e)
    with assms Pair show ?thesis by (simp add: generate_code_post_def)
  next
    case (Inr code)
    with assms(1) Pair obtain k where k: "code = draw rng (pos + len + k * len) len"
      "pos' = pos + len + (k + 1) * len"
      "\<forall>j < k. db (draw rng (pos + len + j * len) len) \<noteq> None"
      and base: "db code = None"
      by (auto simp: generate_code_post_def)
    have "\<forall>j < Suc k. db (draw rng (pos + j * len) len) \<noteq> None"
    proof (intro allI impI)
      fix j assume "j < Suc k"
      show "db (draw rng (pos + j * len) len) \<noteq> None"
      proof (cases j)
        case 0
        with assms(4) show ?thesis by simp
      next
        case (Suc i)
        with \<open>j < Suc k\<close> have "i < k" by simp
        with k(3) have "db (draw rng (pos + len + i * len) len) \<noteq> None" by blast
        then show ?thesis using Suc by (simp add: add.assoc)
      qed
    qed
    moreover have "code = draw rng (pos + Suc k * len) len" using k(1) by (simp add: add.assoc)
    moreover have "pos' = pos + (Suc k + 1) * len" using k(2) by simp
    ultimately have "\<exists>k. code = draw rng (pos + k * len) len \<and> pos' = pos + (k + 1) * len
                 \<and> (\<forall>j < k. db (draw rng (pos + j * len) len) \<noteq> None)"
      by blast
    then show ?thesis
      using base assms(2,3) Pair Inr by (simp add: generate_code_post_def)
  qed
qed

lemma generate_code_result:
  assumes "generate_code fl db rng pos len = Some y"
  shows "generate_code_post fl db rng pos len y"
proof (rule generate_code.raw_induct [where P = generate_code_post, OF _ assms])
  fix gen :: "faults \<Rightarrow> store \<Rightarrow> (nat \<Rightarrow> nat) \<Rightarrow> nat \<Rightarrow> nat \<Rightarrow> ((error + string) \<times> nat) option"
  fix fl db rng pos len y
  assume ih: "\<And>fl db rng pos len y. gen fl db rng pos len = Some y
                \<Longrightarrow> generate_code_post fl db rng pos len y"
    and body: "(if fl Connect \<or> fl Select then Some (Inl OperationalError, pos + len)
                else if db (draw rng pos len) = None then Some (Inr (draw rng pos len), pos + len)
                else gen fl db rng (pos + len) len) = Some y"
  show "generate_code_post fl db rng pos len y"
  proof (cases "fl Connect \<or> fl Select")
    case True
    then have "y = (Inl OperationalError, pos + len)" using body by simp
    with True show ?thesis by (simp add: generate_code_post_def)
  next
    case nofault: False
    show ?thesis
    proof (cases "db (draw rng pos len) = None")
      case True
      with nofault body have "y = (Inr (draw rng pos len), pos + len)" by auto
      with True nofault show ?thesis
        by (auto simp: generate_code_post_def intro!: exI [of _ 0])
    next
      case False
      with nofault body have "gen fl db rng (pos + len) len = Some y" by auto
      then have "generate_code_post fl db rng (pos + len) len y" by (rule ih)
      then show ?thesis using nofault False by (auto intro: generate_code_post_shift)
    qed
  qed
qed

lemma generate_code_finds:
  assumes "\<not> fl Connect" and "\<not> fl Select"
    and "\<forall>j < k. db (draw rng (pos + j * len) len) \<noteq> None"
    and "db (draw rng (pos + k * len) len) = None"
  shows "generate_code fl db rng pos len = Some (Inr (draw rng (pos + k * len) len), pos + (k + 1) * len)"
  using assms(3,4)
proof (induction k arbitrary: pos)
  case 0
  then show ?case using assms(1,2) by (subst generate_code.simps) simp
next
  case (Suc k)
  from Suc.prems(1) have first: "db (draw rng pos len) \<noteq> None" by force
  have rest: "\<forall>j < k. db (draw rng (pos + len + j * len) len) \<noteq> None"
  proof (intro allI impI)
    fix j assume "j < k"
    then have "Suc j < Suc k" by simp
    then have "db (draw rng (pos + Suc j * len) len) \<noteq> None"
      using Suc.prems(1) by blast
    then show "db (draw rng (pos + len + j * len) len) \<noteq> None" by (simp add: add.assoc)
  qed
  have last: "db (draw rng (pos + len + k * len) len) = None"
    using Suc.prems(2) by (simp add: add.assoc)
  have "generate_code fl db rng pos len = generate_code fl db rng (pos + len) len"
    using assms(1,2) first by (subst generate_code.simps) auto
  also have "\<dots> = Some (Inr (draw rng (pos + len + k * len) len), pos + len + (k + 1) * len)"
    using Suc.IH [OF rest last] .
  finally show ?case by (simp add: add.assoc)
qed

lemma generate_code_never:
  assumes "\<not> fl Connect" and "\<not> fl Select"
    and "\<forall>j. db (draw rng (pos + j * len) len) \<noteq> None"
  shows "generate_code fl db rng pos len = None"
proof (rule ccontr)
  assume "generate_code fl db rng pos len \<noteq> None"
  then obtain y where y: "generate_code fl db rng pos len = Some y" by auto
  obtain a pos' where yp: "y = (a, pos')" by (cases y)
  show False
  proof (cases a)
    case (Inl e)
    with generate_code_result [OF y] yp assms(1,2) show False
      by (simp add: generate_code_post_def)
  next
    case (Inr code)
    with generate_code_result [OF y] yp
    obtain k where "code = draw rng (pos + k * len) len" and "db code = None"
      by (auto simp: generate_code_post_def)
    with assms(3) show False by blast
  qed
qed


lemma ascii_alnum_in_ALPHABET_aux:
  "\<forall>n \<in> set ([48 ..< 58] @ [65 ..< 91] @ [97 ..< 123]). char_of (n :: nat) \<in> set ALPHABET"
  by code_simp

lemma ascii_alnum_in_ALPHABET:
  assumes "isascii c" and "isalnum c"
  shows "c \<in> set ALPHABET"
proof -
  have "cp c \<in> {48 ..< 58} \<union> {65 ..< 91} \<union> {97 ..< 123}"
    using assms unfolding isascii_def isalnum_def isalpha_def by auto
  then have "cp c \<in> set ([48 ..< 58] @ [65 ..< 91] @ [97 ..< 123])"
    by (simp only: set_append set_upt Un_assoc)
  then have "char_of (cp c) \<in> set ALPHABET"
    using ascii_alnum_in_ALPHABET_aux by blast
  then show ?thesis by (simp add: cp_def)
qed

lemma ALPHABET_ascii_alnum_aux: "\<forall>c \<in> set ALPHABET. isascii c \<and> isalnum c"
  by code_simp

lemma ALPHABET_ascii_alnum:
  assumes "c \<in> set ALPHABET"
  shows "isascii c" and "isalnum c"
  using assms ALPHABET_ascii_alnum_aux by blast+


text \<open>
  C5. A code that \<^verbatim>\<open>generate_code(length)\<close> returns has \<open>length\<close> characters, each from
  \<^verbatim>\<open>ALPHABET\<close>, and is not a key of the table. \<^verbatim>\<open>ALPHABET\<close> has 62 distinct characters: the
  ASCII letters and digits. The default length is 6. The loop has no retry bound: when
  the first \<open>k\<close> draws are keys of the table and the next one is not, that one is
  returned, whatever \<open>k\<close> is; when every draw is a key, the call never returns.
\<close>

theorem generate_code_fresh:
  "(generate_code fl db rng pos len = Some (Inr code, pos')
      \<longrightarrow> length code = len \<and> (\<forall>c \<in> set code. c \<in> set ALPHABET) \<and> db code = None)
   \<and> length ALPHABET = 62 \<and> distinct ALPHABET
   \<and> (\<forall>c. c \<in> set ALPHABET \<longleftrightarrow> isascii c \<and> isalnum c)
   \<and> SHORT_CODE_LENGTH = 6
   \<and> (\<not> fl Connect \<and> \<not> fl Select
        \<and> (\<forall>j < k. db (draw rng (pos + j * len) len) \<noteq> None)
        \<and> db (draw rng (pos + k * len) len) = None
      \<longrightarrow> generate_code fl db rng pos len
            = Some (Inr (draw rng (pos + k * len) len), pos + (k + 1) * len))
   \<and> (\<not> fl Connect \<and> \<not> fl Select \<and> (\<forall>j. db (draw rng (pos + j * len) len) \<noteq> None)
      \<longrightarrow> generate_code fl db rng pos len = None)"
proof -
  have post: "length code = len \<and> (\<forall>c \<in> set code. c \<in> set ALPHABET) \<and> db code = None"
    if ret: "generate_code fl db rng pos len = Some (Inr code, pos')"
  proof -
    from generate_code_result [OF ret]
    obtain i where "code = draw rng (pos + i * len) len" and "db code = None"
      by (auto simp: generate_code_post_def)
    then show ?thesis
      using draw_length [of rng "pos + i * len" len] draw_chars [of rng "pos + i * len" len]
      by blast
  qed
  have alpha: "\<forall>c. c \<in> set ALPHABET \<longleftrightarrow> isascii c \<and> isalnum c"
    using ALPHABET_ascii_alnum ascii_alnum_in_ALPHABET by blast
  show ?thesis
    using post alpha ALPHABET_size ALPHABET_distinct generate_code_finds generate_code_never
    by (simp add: SHORT_CODE_LENGTH_def)
qed

theorem generate_code_fresh_witness:
  "generate_code (\<lambda>op. False)
     (Map.empty(''aaaaaa'' \<mapsto> \<lparr>url = ''http://example.com'', created_at = 0, clicks = 0\<rparr>))
     (\<lambda>i. if i < 6 then 0 else 1) 0 6
   = Some (Inr ''bbbbbb'', 12)
   \<and> length ''bbbbbb'' = (6::nat) \<and> CHR ''b'' \<in> set ALPHABET"
proof -
  let ?db = "Map.empty(''aaaaaa'' \<mapsto> \<lparr>url = ''http://example.com'', created_at = 0, clicks = 0\<rparr>)"
  let ?rng = "\<lambda>i::nat. if i < 6 then 0 else (1::nat)"
  have d0: "draw ?rng 0 6 = ''aaaaaa''" by code_simp
  have d1: "draw ?rng 6 6 = ''bbbbbb''" by code_simp
  have used: "\<forall>j < 1. ?db (draw ?rng (0 + j * 6) 6) \<noteq> None" by (simp add: d0)
  have free: "?db (draw ?rng (0 + 1 * 6) 6) = None" by (simp add: d1)
  note inst = generate_code_fresh [of "\<lambda>op. False" ?db ?rng 0 6 "''bbbbbb''" 12 1]
  from inst used free
  have "generate_code (\<lambda>op. False) ?db ?rng 0 6
        = Some (Inr (draw ?rng (0 + 1 * 6) 6), 0 + (1 + 1) * 6)"
    by blast
  then have run: "generate_code (\<lambda>op. False) ?db ?rng 0 6 = Some (Inr ''bbbbbb'', 12)"
    by (simp add: d1)
  with inst have "length ''bbbbbb'' = (6::nat) \<and> (\<forall>c \<in> set ''bbbbbb''. c \<in> set ALPHABET)"
    by blast
  with run show ?thesis by simp
qed

section \<open>Redirects and statistics\<close>

lemma redirect_code_found:
  assumes "db code = Some row" and "\<not> fl Connect" and "\<not> fl Select"
  shows "redirect_code fl db code =
     (if fl Update \<or> fl Commit then (Inl OperationalError, db)
      else (Inr (Redirect (url row) 302), db(code \<mapsto> row\<lparr>clicks := clicks row + 1\<rparr>)))"
  using assms by (simp add: redirect_code_def)

lemma stats_store: "snd (stats fl db code) = db"
  by (simp add: stats_def split: option.split)


text \<open>
  C9. For a code that is not a key of the table, while the database answers, the redirect
  route responds 404 with the plain text \<^verbatim>\<open>Not found\<close> and the statistics route responds
  404 with the JSON object \<^verbatim>\<open>{"error": "Not found"}\<close>; neither changes the table.
\<close>

theorem unknown_code_responses:
  assumes "db code = None" and "\<not> fl Connect" and "\<not> fl Select"
  shows "redirect_code fl db code = (Inr (Text ''Not found'' 404), db)
         \<and> stats fl db code = (Inr (Json [(''error'', JStr ''Not found'')] 404), db)"
  using assms by (simp add: redirect_code_def stats_def)

theorem unknown_code_responses_witness:
  "redirect_code (\<lambda>op. False) Map.empty ''nosuch'' = (Inr (Text ''Not found'' 404), Map.empty)
   \<and> stats (\<lambda>op. False) Map.empty ''nosuch''
       = (Inr (Json [(''error'', JStr ''Not found'')] 404), Map.empty)"
  using unknown_code_responses [of Map.empty "''nosuch''" "\<lambda>op. False"] by simp






section \<open>Shortening and the round trip\<close>

lemma insert_url_cases:
  assumes "insert_url fl db req u code = (out, db')"
  shows "(db' = db \<and> (\<exists>e. out = Inl e))
         \<or> (db code = None
            \<and> db' = db(code \<mapsto> \<lparr>url = u, created_at = now req, clicks = 0\<rparr>)
            \<and> out = Inr (Json [(''short_url'',
                   JStr (rstrip_char CHR ''/'' (host_url req) @ ''/'' @ code))] 201))"
  using assms by (auto simp: insert_url_def split: if_splits)

lemma shorten_cases:
  assumes "shorten fl db rng pos req = Some (out, db', pos')"
  shows "(db' = db \<and> (\<forall>body. out \<noteq> Inr (Json body 201)))
         \<or> (\<exists>u code. validate_and_normalize_url (req_url req) = Inr (Some u) \<and> u \<noteq> []
              \<and> db code = None
              \<and> db' = db(code \<mapsto> \<lparr>url = u, created_at = now req, clicks = 0\<rparr>)
              \<and> out = Inr (Json [(''short_url'',
                     JStr (rstrip_char CHR ''/'' (host_url req) @ ''/'' @ code))] 201)
              \<and> ((custom req = Some code \<and> code \<noteq> [] \<and> custom_chars_ok code)
                   \<or> ((custom req = None \<or> custom req = Some [])
                       \<and> generate_code fl db rng pos SHORT_CODE_LENGTH = Some (Inr code, pos'))))"
proof (cases "validate_and_normalize_url (req_url req)")
  case (Inl e)
  with assms show ?thesis by (auto simp: shorten_def)
next
  case (Inr normalized)
  show ?thesis
  proof (cases "normalized = None \<or> normalized = Some []")
    case True
    with assms Inr show ?thesis by (auto simp: shorten_def)
  next
    case False
    then obtain u where u: "normalized = Some u" "u \<noteq> []" by (cases normalized) auto
    show ?thesis
    proof (cases "fl Connect")
      case True
      with assms Inr u show ?thesis by (auto simp: shorten_def)
    next
      case conn: False
      show ?thesis
      proof (cases "custom req \<noteq> None \<and> custom req \<noteq> Some []")
        case True
        then obtain code where code: "custom req = Some code" "code \<noteq> []" by auto
        show ?thesis
        proof (cases "custom_chars_ok code \<and> \<not> fl Select \<and> db code = None")
          case False
          with assms Inr u conn code show ?thesis
            by (auto simp: shorten_def split: if_splits)
        next
          case ok: True
          obtain o1 d1 where ins: "insert_url fl db req u code = (o1, d1)"
            by (cases "insert_url fl db req u code")
          with assms Inr u conn code ok have eq: "out = o1" "db' = d1"
            by (auto simp: shorten_def)
          from insert_url_cases [OF ins] show ?thesis
            using eq Inr u code ok by auto
        qed
      next
        case nocustom: False
        then have nc: "custom req = None \<or> custom req = Some []" by auto
        from assms Inr u conn nocustom
        have "(case generate_code fl db rng pos SHORT_CODE_LENGTH of
               None \<Rightarrow> None
             | Some (Inl e, pos') \<Rightarrow> Some (Inl e, db, pos')
             | Some (Inr code, pos') \<Rightarrow>
                 (case insert_url fl db req (the (Some u)) code of
                    (out, db') \<Rightarrow> Some (out, db', pos'))) = Some (out, db', pos')"
          by (auto simp: shorten_def)
        note run = this [unfolded option.sel]
        then obtain a p where gen: "generate_code fl db rng pos SHORT_CODE_LENGTH = Some (a, p)"
          by (cases "generate_code fl db rng pos SHORT_CODE_LENGTH") auto
        show ?thesis
        proof (cases a)
          case (Inl e)
          with run gen show ?thesis by auto
        next
          case (Inr code)
          obtain o1 d1 where ins: "insert_url fl db req u code = (o1, d1)"
            by (cases "insert_url fl db req u code")
          with run gen Inr have eq: "out = o1" "db' = d1" "pos' = p" by auto
          from insert_url_cases [OF ins] show ?thesis
            using eq \<open>validate_and_normalize_url (req_url req) = Inr normalized\<close> u nc gen Inr
            by auto
        qed
      qed
    qed
  qed
qed



lemma validate_example_com:
  "validate_and_normalize_url (Some ''example.com'') = Inr (Some ''http://example.com'')"
  by code_simp


section \<open>Custom codes\<close>

lemma validate_parses:
  assumes "validate_and_normalize_url original = Inr (Some u)"
  shows "\<exists>p. urlparse u = Inr p \<and> scheme p \<in> {''http'', ''https''} \<and> netloc p \<noteq> []"
  using assms
  by (auto simp: validate_and_normalize_url_def Let_def
           split: option.splits if_splits sum.splits prod.splits)

lemma validate_nonempty:
  assumes "validate_and_normalize_url original = Inr (Some u)"
  shows "u \<noteq> []"
  using validate_parses [OF assms] urlparse_empty by auto

lemma shorten_bad_custom:
  assumes "validate_and_normalize_url (req_url req) = Inr (Some u)" and "\<not> fl Connect"
    and "custom req = Some code" and "\<not> custom_chars_ok code"
  shows "shorten fl db rng pos req
         = Some (Inr (Json [(''error'', JStr ''Invalid characters in custom code'')] 400), db, pos)"
proof -
  have "code \<noteq> []" using assms(4) by (auto simp: custom_chars_ok_def)
  moreover have "u \<noteq> []"
    using assms(1) by (rule validate_nonempty)
  ultimately show ?thesis using assms by (simp add: shorten_def)
qed

text \<open>
  C3. A request with a non-empty custom code that \<^verbatim>\<open>shorten\<close> answers with 201 has a code
  whose characters are all alphanumeric for \<^verbatim>\<open>str.isalnum\<close>, or \<^verbatim>\<open>-\<close>, or \<^verbatim>\<open>_\<close>, and the
  code is then a key of the table. Among ASCII characters these are exactly A-Z, a-z, 0-9,
  \<^verbatim>\<open>-\<close> and \<^verbatim>\<open>_\<close>. A custom code with any other character, such as the space of
  \<^verbatim>\<open>my code\<close>, is answered with 400 and \<^verbatim>\<open>Invalid characters in custom code\<close> once the URL
  has passed and the database is connected.
\<close>

theorem custom_code_characters:
  "(shorten fl db rng pos req = Some (Inr (Json body 201), db', pos')
      \<and> custom req = Some code \<and> code \<noteq> []
     \<longrightarrow> (\<forall>c \<in> set code. isalnum c \<or> c = CHR ''-'' \<or> c = CHR ''_'') \<and> db' code \<noteq> None)
   \<and> (\<forall>c. isascii c \<longrightarrow>
         (isalnum c \<or> c = CHR ''-'' \<or> c = CHR ''_'') = (c \<in> set (ALPHABET @ ''-_'')))
   \<and> (validate_and_normalize_url (req_url req) = Inr (Some u) \<and> \<not> fl Connect
        \<and> custom req = Some code
        \<and> (\<exists>c \<in> set code. \<not> (isalnum c \<or> c = CHR ''-'' \<or> c = CHR ''_''))
     \<longrightarrow> shorten fl db rng pos req
         = Some (Inr (Json [(''error'', JStr ''Invalid characters in custom code'')] 400), db, pos))
   \<and> \<not> isalnum (CHR '' '')"
proof -
  have accepted: "(\<forall>c \<in> set code. isalnum c \<or> c = CHR ''-'' \<or> c = CHR ''_'') \<and> db' code \<noteq> None"
    if run: "shorten fl db rng pos req = Some (Inr (Json body 201), db', pos')"
      and cu: "custom req = Some code" "code \<noteq> []"
  proof -
    from shorten_cases [OF run] cu
    have "custom_chars_ok code \<and> db' code \<noteq> None" by auto
    then show ?thesis by (simp add: custom_chars_ok_def)
  qed
  have ascii: "\<forall>c. isascii c \<longrightarrow>
         (isalnum c \<or> c = CHR ''-'' \<or> c = CHR ''_'') = (c \<in> set (ALPHABET @ ''-_''))"
    using ALPHABET_ascii_alnum ascii_alnum_in_ALPHABET by auto
  have rejected: "shorten fl db rng pos req
         = Some (Inr (Json [(''error'', JStr ''Invalid characters in custom code'')] 400), db, pos)"
    if "validate_and_normalize_url (req_url req) = Inr (Some u)" "\<not> fl Connect"
      "custom req = Some code" "\<exists>c \<in> set code. \<not> (isalnum c \<or> c = CHR ''-'' \<or> c = CHR ''_'')"
  proof -
    have "\<not> custom_chars_ok code" using that(4) by (auto simp: custom_chars_ok_def)
    with that show ?thesis by (intro shorten_bad_custom)
  qed
  have space: "\<not> isalnum (CHR '' '')" by (simp add: isalnum_def isalpha_def cp_def)
  show ?thesis using accepted ascii rejected space by blast
qed


theorem custom_code_characters_witness:
  "shorten (\<lambda>op. False) Map.empty (\<lambda>i. 0) 0
     \<lparr>req_url = Some ''example.com'', custom = Some ''my code'',
      host_url = ''http://sho.rt/'', now = 5\<rparr>
   = Some (Inr (Json [(''error'', JStr ''Invalid characters in custom code'')] 400), Map.empty, 0)"
proof -
  let ?req = "\<lparr>req_url = Some ''example.com'', custom = Some ''my code'',
               host_url = ''http://sho.rt/'', now = 5\<rparr>"
  have v: "validate_and_normalize_url (req_url ?req) = Inr (Some ''http://example.com'')"
    by (simp add: validate_example_com)
  have c: "custom ?req = Some ''my code''" by simp
  have bad: "\<exists>c \<in> set ''my code''. \<not> (isalnum c \<or> c = CHR ''-'' \<or> c = CHR ''_'')"
    by (simp add: isalnum_def isalpha_def cp_def)
  have f: "\<not> (\<lambda>op::db_op. False) Connect" by simp
  from custom_code_characters
         [of "\<lambda>op. False" Map.empty "\<lambda>i. 0" 0 ?req _ _ _ "''my code''" "''http://example.com''"]
       v c bad f
  show ?thesis by blast
qed

theorem non_ascii_custom_code_accepted:
  "shorten (\<lambda>op. False) Map.empty (\<lambda>i. 0) 0
     \<lparr>req_url = Some ''example.com'', custom = Some [CHR 0xE9],
      host_url = ''http://sho.rt/'', now = 5\<rparr>
   = Some (Inr (Json [(''short_url'', JStr (''http://sho.rt/'' @ [CHR 0xE9]))] 201),
           Map.empty([CHR 0xE9] \<mapsto> \<lparr>url = ''http://example.com'', created_at = 5, clicks = 0\<rparr>),
           0)
   \<and> \<not> isascii (CHR 0xE9)
   \<and> CHR 0xE9 \<notin> set ''ABCDEFGHIJKLMNOPQRSTUVWXYZabcdefghijklmnopqrstuvwxyz0123456789-_''"
proof -
  have ok: "custom_chars_ok [CHR 0xE9]"
    by (simp add: custom_chars_ok_def isalnum_def isalpha_def cp_def)
  have "\<not> isascii (CHR 0xE9)" by (simp add: isascii_def cp_def)
  then show ?thesis
    by (simp add: shorten_def validate_example_com ok insert_url_def rstrip_char_def)
qed

section \<open>Invariants of the table\<close>

lemma step_cases:
  assumes "step db db'"
  shows "db' = db
         \<or> (\<exists>code row. db code = Some row \<and> db' = db(code \<mapsto> row\<lparr>clicks := clicks row + 1\<rparr>))
         \<or> (\<exists>code u t original. db code = None
               \<and> validate_and_normalize_url original = Inr (Some u)
               \<and> db' = db(code \<mapsto> \<lparr>url = u, created_at = t, clicks = 0\<rparr>))"
  using assms
proof (cases rule: step.cases)
  case (step_shorten fl rng pos req out pos')
  from shorten_cases [OF step_shorten] show ?thesis by blast
next
  case (step_redirect fl code out)
  then show ?thesis
    by (auto simp: redirect_code_def split: if_splits option.splits)
next
  case (step_stats fl code out)
  then have "db' = db" using stats_store [of fl db code] by simp
  then show ?thesis by simp
qed

lemma step_urls:
  assumes "step db db'" and "\<forall>code row. db code = Some row \<longrightarrow> url_ok (url row)"
  shows "\<forall>code row. db' code = Some row \<longrightarrow> url_ok (url row)"
proof -
  from step_cases [OF assms(1)]
  consider "db' = db"
    | code row where "db code = Some row" "db' = db(code \<mapsto> row\<lparr>clicks := clicks row + 1\<rparr>)"
    | code u t original where "validate_and_normalize_url original = Inr (Some u)"
        "db' = db(code \<mapsto> \<lparr>url = u, created_at = t, clicks = 0\<rparr>)"
    by blast
  then show ?thesis
  proof cases
    case 1
    with assms(2) show ?thesis by simp
  next
    case 2
    with assms(2) show ?thesis by auto
  next
    case 3
    have "url_ok u" using 3(1) validate_parses [OF 3(1)] by (auto simp: url_ok_def)
    with 3(2) assms(2) show ?thesis by auto
  qed
qed

lemma reachable_urls:
  assumes "reachable db"
  shows "\<forall>code row. db code = Some row \<longrightarrow> url_ok (url row)"
  using assms unfolding reachable_def
proof (induction rule: rtranclp_induct)
  case base
  show ?case by simp
next
  case (step y z)
  from step_urls [OF step(2) step(3)] show ?case .
qed

lemma step_clicks:
  assumes "step db db'"
  shows "(\<forall>code row. db code = Some row \<longrightarrow> (\<exists>row'. db' code = Some row' \<and> clicks row \<le> clicks row'))
         \<and> (\<forall>code row'. db code = None \<and> db' code = Some row' \<longrightarrow> clicks row' = 0)"
proof -
  from step_cases [OF assms]
  consider "db' = db"
    | code row where "db code = Some row" "db' = db(code \<mapsto> row\<lparr>clicks := clicks row + 1\<rparr>)"
    | code u t where "db code = None" "db' = db(code \<mapsto> \<lparr>url = u, created_at = t, clicks = 0\<rparr>)"
    by blast
  then show ?thesis
  proof cases
    case 1
    then show ?thesis by auto
  next
    case 2
    then show ?thesis by auto
  next
    case 3
    then show ?thesis by auto
  qed
qed

lemma reachable_clicks:
  assumes "reachable db"
  shows "\<forall>code row. db code = Some row \<longrightarrow> 0 \<le> clicks row"
  using assms unfolding reachable_def
proof (induction rule: rtranclp_induct)
  case base
  show ?case by simp
next
  case (step y z)
  show ?case
  proof (intro allI impI)
    fix code row assume z: "z code = Some row"
    show "0 \<le> clicks row"
    proof (cases "y code")
      case None
      with step_clicks [OF step(2)] z show ?thesis by auto
    next
      case (Some r)
      with step_clicks [OF step(2)] obtain r' where "z code = Some r'" "clicks r \<le> clicks r'"
        by blast
      moreover have "0 \<le> clicks r" using step(3) Some by blast
      ultimately show ?thesis using z by simp
    qed
  qed
qed


text \<open>
  C7. In every state of a table that started empty, the URL of every record is a string
  that \<^verbatim>\<open>validate_and_normalize_url\<close> returned: the parser gives it the scheme \<^verbatim>\<open>http\<close> or
  \<^verbatim>\<open>https\<close> and a network location (the authority: user information, host and port
  together) that is not empty. A record that \<^verbatim>\<open>shorten\<close> adds holds the normalized form of
  the submitted URL.
\<close>

theorem stored_urls_validated:
  "(reachable db \<and> db code = Some row
      \<longrightarrow> (\<exists>p. urlparse (url row) = Inr p \<and> scheme p \<in> {''http'', ''https''} \<and> netloc p \<noteq> [])
          \<and> (\<exists>original. validate_and_normalize_url original = Inr (Some (url row))))
   \<and> (shorten fl db0 rng pos req = Some (out, db1, pos') \<and> db0 code = None \<and> db1 code = Some row
      \<longrightarrow> validate_and_normalize_url (req_url req) = Inr (Some (url row)))"
proof -
  have inv: "(\<exists>p. urlparse (url row) = Inr p \<and> scheme p \<in> {''http'', ''https''} \<and> netloc p \<noteq> [])
          \<and> (\<exists>original. validate_and_normalize_url original = Inr (Some (url row)))"
    if "reachable db" "db code = Some row"
    using reachable_urls [OF that(1)] that(2) unfolding url_ok_def by blast
  have new: "validate_and_normalize_url (req_url req) = Inr (Some (url row))"
    if run: "shorten fl db0 rng pos req = Some (out, db1, pos')"
      and "db0 code = None" "db1 code = Some row"
    using shorten_cases [OF run] that(2,3) by (auto split: if_splits)
  show ?thesis using inv new by blast
qed

lemma shorten_example_run:
  "shorten (\<lambda>op. False) Map.empty (\<lambda>i. 0) 0
     \<lparr>req_url = Some ''example.com'', custom = Some ''a'', host_url = ''http://sho.rt/'', now = 5\<rparr>
   = Some (Inr (Json [(''short_url'', JStr ''http://sho.rt/a'')] 201),
           Map.empty(''a'' \<mapsto> \<lparr>url = ''http://example.com'', created_at = 5, clicks = 0\<rparr>), 0)"
proof -
  have ok: "custom_chars_ok ''a''"
    by (simp add: custom_chars_ok_def isalnum_def isalpha_def cp_def)
  show ?thesis
    by (simp add: shorten_def validate_example_com ok insert_url_def rstrip_char_def)
qed

lemma reachable_example:
  "reachable (Map.empty(''a'' \<mapsto> \<lparr>url = ''http://example.com'', created_at = 5, clicks = 0\<rparr>))"
proof -
  have "step Map.empty
          (Map.empty(''a'' \<mapsto> \<lparr>url = ''http://example.com'', created_at = 5, clicks = 0\<rparr>))"
    using shorten_example_run by (rule step_shorten)
  then show ?thesis
    unfolding reachable_def by (rule r_into_rtranclp [where r = step])
qed

theorem stored_urls_validated_witness:
  "reachable (Map.empty(''a'' \<mapsto> \<lparr>url = ''http://example.com'', created_at = 5, clicks = 0\<rparr>))
   \<and> (\<exists>p. urlparse ''http://example.com'' = Inr p \<and> scheme p \<in> {''http'', ''https''}
          \<and> netloc p \<noteq> [])"
proof -
  let ?row = "\<lparr>url = ''http://example.com'', created_at = 5, clicks = 0\<rparr>"
  let ?db = "Map.empty(''a'' \<mapsto> ?row)"
  have look: "?db ''a'' = Some ?row" by simp
  have "reachable ?db \<and> ?db ''a'' = Some ?row"
    using reachable_example look by (rule conjI)
  with stored_urls_validated [of ?db "''a''" ?row, THEN conjunct1]
  have "(\<exists>p. urlparse (url ?row) = Inr p \<and> scheme p \<in> {''http'', ''https''} \<and> netloc p \<noteq> [])
        \<and> (\<exists>original. validate_and_normalize_url original = Inr (Some (url ?row)))"
    by (rule mp)
  then have "\<exists>p. urlparse (url ?row) = Inr p \<and> scheme p \<in> {''http'', ''https''} \<and> netloc p \<noteq> []"
    by (rule conjunct1)
  then have "\<exists>p. urlparse ''http://example.com'' = Inr p \<and> scheme p \<in> {''http'', ''https''}
          \<and> netloc p \<noteq> []"
    by simp
  with reachable_example show ?thesis by (rule conjI)
qed

theorem stored_url_empty_host:
  "shorten (\<lambda>op. False) Map.empty (\<lambda>i. 0) 0
     \<lparr>req_url = Some ''http://:80'', custom = Some ''a'', host_url = ''http://sho.rt/'', now = 5\<rparr>
   = Some (Inr (Json [(''short_url'', JStr ''http://sho.rt/a'')] 201),
           Map.empty(''a'' \<mapsto> \<lparr>url = ''http://:80'', created_at = 5, clicks = 0\<rparr>), 0)
   \<and> urlparse ''http://:80'' = Inr \<lparr>scheme = ''http'', netloc = '':80''\<rparr>
   \<and> hostname \<lparr>scheme = ''http'', netloc = '':80''\<rparr> = None"
proof -
  have v: "validate_and_normalize_url (Some ''http://:80'') = Inr (Some ''http://:80'')"
    by code_simp
  have ok: "custom_chars_ok ''a''"
    by (simp add: custom_chars_ok_def isalnum_def isalpha_def cp_def)
  have p: "urlparse ''http://:80'' = Inr \<lparr>scheme = ''http'', netloc = '':80''\<rparr>"
    by code_simp
  have h: "hostname \<lparr>scheme = ''http'', netloc = '':80''\<rparr> = None"
    by code_simp
  show ?thesis
    using p h by (simp add: shorten_def v ok insert_url_def rstrip_char_def)
qed

text \<open>
  C8. Every request leaves each record in the table with a counter at least as large as
  before, and a record it adds has the counter 0: \<^verbatim>\<open>shorten\<close> only adds a record with
  \<^verbatim>\<open>clicks = 0\<close> under a new code, a redirect only adds 1 to one counter, and the statistics
  route returns the table as it was. So in every state of a table that started empty the
  counters are not negative.
\<close>

theorem clicks_never_decrease:
  "(step db db'
      \<longrightarrow> (\<forall>code row. db code = Some row
              \<longrightarrow> (\<exists>row'. db' code = Some row' \<and> clicks row \<le> clicks row'))
          \<and> (\<forall>code row'. db code = None \<and> db' code = Some row' \<longrightarrow> clicks row' = 0))
   \<and> (reachable db \<longrightarrow> (\<forall>code row. db code = Some row \<longrightarrow> 0 \<le> clicks row))
   \<and> (redirect_code fl db code = (out, db')
      \<longrightarrow> db' = db \<or> (\<exists>row. db code = Some row
                           \<and> db' = db(code \<mapsto> row\<lparr>clicks := clicks row + 1\<rparr>)))
   \<and> snd (stats fl db code) = db"
proof -
  have r: "db' = db \<or> (\<exists>row. db code = Some row
                           \<and> db' = db(code \<mapsto> row\<lparr>clicks := clicks row + 1\<rparr>))"
    if "redirect_code fl db code = (out, db')"
    using that by (auto simp: redirect_code_def split: if_splits option.splits)
  have s: "step db db'
      \<longrightarrow> (\<forall>code row. db code = Some row
              \<longrightarrow> (\<exists>row'. db' code = Some row' \<and> clicks row \<le> clicks row'))
          \<and> (\<forall>code row'. db code = None \<and> db' code = Some row' \<longrightarrow> clicks row' = 0)"
    by (rule impI) (rule step_clicks)
  have i: "reachable db \<longrightarrow> (\<forall>code row. db code = Some row \<longrightarrow> 0 \<le> clicks row)"
    by (rule impI) (rule reachable_clicks)
  have r': "redirect_code fl db code = (out, db')
      \<longrightarrow> db' = db \<or> (\<exists>row. db code = Some row
                           \<and> db' = db(code \<mapsto> row\<lparr>clicks := clicks row + 1\<rparr>))"
    by (rule impI) (rule r)
  show ?thesis
    by (rule conjI [OF s conjI [OF i conjI [OF r' stats_store]]])
qed

theorem clicks_never_decrease_witness:
  "step (Map.empty(''a'' \<mapsto> \<lparr>url = ''http://example.com'', created_at = 5, clicks = 0\<rparr>))
        (Map.empty(''a'' \<mapsto> \<lparr>url = ''http://example.com'', created_at = 5, clicks = 1\<rparr>))
   \<and> reachable (Map.empty(''a'' \<mapsto> \<lparr>url = ''http://example.com'', created_at = 5, clicks = 0\<rparr>))
   \<and> (0::int) \<le> clicks \<lparr>url = ''http://example.com'', created_at = 5, clicks = 0\<rparr>
   \<and> clicks \<lparr>url = ''http://example.com'', created_at = 5, clicks = 0\<rparr>
      \<le> clicks \<lparr>url = ''http://example.com'', created_at = 5, clicks = 1\<rparr>"
proof -
  let ?row = "\<lparr>url = ''http://example.com'', created_at = 5, clicks = 0\<rparr>"
  let ?row' = "\<lparr>url = ''http://example.com'', created_at = 5, clicks = 1\<rparr>"
  let ?db = "Map.empty(''a'' \<mapsto> ?row)"
  let ?db' = "Map.empty(''a'' \<mapsto> ?row')"
  have "redirect_code (\<lambda>op. False) ?db ''a'' = (Inr (Redirect ''http://example.com'' 302), ?db')"
    by (simp add: redirect_code_def)
  then have st: "step ?db ?db'" by (rule step_redirect)
  have look: "?db ''a'' = Some ?row" by simp
  have look': "?db' ''a'' = Some ?row'" by simp
  note inst = clicks_never_decrease [of ?db ?db' "\<lambda>op. False" "''a''"]
  have "(\<forall>code row. ?db code = Some row
              \<longrightarrow> (\<exists>row'. ?db' code = Some row' \<and> clicks row \<le> clicks row'))
          \<and> (\<forall>code row'. ?db code = None \<and> ?db' code = Some row' \<longrightarrow> clicks row' = 0)"
    using inst [THEN conjunct1] st by (rule mp)
  then have "\<forall>code row. ?db code = Some row
              \<longrightarrow> (\<exists>row'. ?db' code = Some row' \<and> clicks row \<le> clicks row')"
    by (rule conjunct1)
  from this [rule_format, of "''a''" ?row, OF look]
  have mono: "clicks ?row \<le> clicks ?row'" by simp
  have "\<forall>code row. ?db code = Some row \<longrightarrow> 0 \<le> clicks row"
    using inst [THEN conjunct2, THEN conjunct1] reachable_example by (rule mp)
  from this [rule_format, of "''a''" ?row, OF look]
  have nonneg: "0 \<le> clicks ?row" .
  show ?thesis
    using st reachable_example nonneg mono by (intro conjI)
qed

end
